theory Spec2Isabelle
  imports Main "HOL-Library.Finite_Map" "HOL-Library.Word" "HOL-Library.Sublist"
begin

chapter \<open>The model\<close>

section \<open>Go values used by the provider\<close>

text \<open>
  Go strings are byte sequences: \<^typ>\<open>string\<close>. A Go \<open>int\<close> is modelled as \<^typ>\<open>int\<close>
  (no arithmetic is done on ports). \<open>strconv.Itoa\<close> and the verbs \<open>%d\<close> and \<open>%o\<close> take
  their digits from the string \<open>0123456789abcdefghijklmnopqrstuvwxyz\<close>.
\<close>

definition digit_char :: "nat \<Rightarrow> char" where
  "digit_char d = ''0123456789abcdefghijklmnopqrstuvwxyz'' ! d"

function utoa :: "nat \<Rightarrow> string" where
  "utoa n = (if n < 10 then [digit_char n] else utoa (n div 10) @ [digit_char (n mod 10)])"
  by pat_completeness auto
termination
  by (relation "measure (\<lambda>n. n)") auto

declare utoa.simps [simp del]

definition itoa :: "int \<Rightarrow> string" where
  "itoa i = (if i < 0 then CHR ''-'' # utoa (nat (- i)) else utoa (nat i))"

text \<open>Octal digits of an unsigned number, as the verb \<open>%o\<close> prints them.\<close>

function otoa :: "nat \<Rightarrow> string" where
  "otoa n = (if n < 8 then [digit_char n] else otoa (n div 8) @ [digit_char (n mod 8)])"
  by pat_completeness auto
termination
  by (relation "measure (\<lambda>n. n)") auto

declare otoa.simps [simp del]

text \<open>
  \<open>fmt.Sprintf("%04o", mode)\<close>, the way the resources and data sources print a mode
  for Terraform: octal, padded with zeros on the left to four characters.
\<close>

definition fmt_04o :: "32 word \<Rightarrow> string" where
  "fmt_04o m = (let s = otoa (unat m) in replicate (4 - length s) CHR ''0'' @ s)"

subsection \<open>strconv.ParseUint\<close>

text \<open>
  The standard library's \<open>ParseUint(s, base, bitSize)\<close> for an explicit base between 2
  and 36 (the provider passes 8 and 32; base 0, which detects a prefix and accepts
  underscores, is not used by the provider and not modelled). The accumulator is a
  \<open>uint64\<close>: products and sums are taken modulo \<open>2 ^ 64\<close> and the loop makes the same
  checks as the library (\<open>n >= cutoff\<close>, \<open>n1 < n || n1 > maxVal\<close>).
\<close>

datatype num_error = ErrSyntax | ErrRange | ErrBase | ErrBitSize

definition lower :: "nat \<Rightarrow> nat" where
  "lower c = or c 32"

definition digit_val :: "char \<Rightarrow> nat option" where
  "digit_val ch =
     (let c = (of_char ch :: nat) in
      if 48 \<le> c \<and> c \<le> 57 then Some (c - 48)
      else if 97 \<le> lower c \<and> lower c \<le> 122 then Some (lower c - 97 + 10)
      else None)"

fun parse_loop :: "nat \<Rightarrow> nat \<Rightarrow> nat \<Rightarrow> nat \<Rightarrow> string \<Rightarrow> num_error + nat" where
  "parse_loop base cutoff maxVal n [] = Inr n"
| "parse_loop base cutoff maxVal n (ch # cs) =
     (case digit_val ch of
        None \<Rightarrow> Inl ErrSyntax
      | Some d \<Rightarrow>
          if d \<ge> base then Inl ErrSyntax
          else if n \<ge> cutoff then Inl ErrRange
          else
            (let n' = (n * base) mod 2 ^ 64;
                 n1 = (n' + d) mod 2 ^ 64
             in if n1 < n' \<or> n1 > maxVal then Inl ErrRange
                else parse_loop base cutoff maxVal n1 cs))"

definition ParseUint :: "string \<Rightarrow> nat \<Rightarrow> nat \<Rightarrow> num_error + nat" where
  "ParseUint s base bitSize =
     (if s = [] then Inl ErrSyntax
      else if \<not> (2 \<le> base \<and> base \<le> 36) then Inl ErrBase
      else if bitSize > 64 then Inl ErrBitSize
      else
        (let bs = (if bitSize = 0 then 64 else bitSize);
             cutoff = (2 ^ 64 - 1) div base + 1;
             maxVal = 2 ^ bs - 1
         in parse_loop base cutoff maxVal 0 s))"

section \<open>util.go\<close>

text \<open>\<open>0644\<close> is 420; the result \<open>uint32(p)\<close> is the value modulo \<open>2 ^ 32\<close>.\<close>

definition ParsePermissions :: "string \<Rightarrow> 32 word" where
  "ParsePermissions perms =
     (if perms = [] then 420
      else case ParseUint perms 8 32 of
             Inl err \<Rightarrow> 420
           | Inr p \<Rightarrow> word_of_nat p)"

text \<open>
  What the permission strings mean, independently of the parser: an octal string is a
  non-empty string of the digits 0 to 7, its value is read digit by digit, and its
  canonical form drops the leading zeros and pads to four digits.
\<close>

definition is_octal_digit :: "char \<Rightarrow> bool" where
  "is_octal_digit ch \<longleftrightarrow> 48 \<le> (of_char ch :: nat) \<and> (of_char ch :: nat) \<le> 55"

definition octal_string :: "string \<Rightarrow> bool" where
  "octal_string s \<longleftrightarrow> s \<noteq> [] \<and> list_all is_octal_digit s"

definition octal_value_from :: "nat \<Rightarrow> string \<Rightarrow> nat" where
  "octal_value_from n cs = foldl (\<lambda>v ch. 8 * v + ((of_char ch :: nat) - 48)) n cs"

definition octal_value :: "string \<Rightarrow> nat" where
  "octal_value s = octal_value_from 0 s"

definition canonical_perm :: "string \<Rightarrow> string" where
  "canonical_perm s =
     (let t = dropWhile (\<lambda>ch. ch = CHR ''0'') s in replicate (4 - length t) CHR ''0'' @ t)"

section \<open>ssh\_client.go: configuration and value objects\<close>

record SSHConfig =
  Host :: string
  Port :: int
  Username :: string
  Password :: string
  PrivateKey :: string


record FileAttributes =
  Immutable :: bool
  AppendOnly :: bool
  NoDump :: bool
  Synchronous :: bool
  NoAtime :: bool
  Compressed :: bool
  NoCoW :: bool
  Undeletable :: bool

section \<open>ssh\_pool.go: the pool key\<close>

text \<open>\<open>fmt.Sprintf("%s:%d:%s", config.Host, config.Port, config.Username)\<close>\<close>

definition configKey :: "SSHConfig \<Rightarrow> string" where
  "configKey config = Host config @ '':'' @ itoa (Port config) @ '':'' @ Username config"

section \<open>Errors\<close>

text \<open>
  Every \<open>fmt.Errorf\<close> of the two files is one constructor; the wrapped library error
  is not kept.
\<close>

datatype error =
    ErrPoolAtCapacity int
  | ErrParsePrivateKey
  | ErrNoAuthMethod
  | ErrConnect
  | ErrSftpClient
  | ErrAlreadyExists string
  | ErrCreateDirectory
  | ErrSetDirPermissions
  | ErrCheckExistence
  | ErrGetFileMode
  | ErrNewSession
  | ErrGetOwnership
  | ErrLsFormat string
  | ErrGetUsername
  | ErrGetGroupName
  | ErrGetCurrentOwnership error
  | ErrSetOwnership
  | ErrGetAttributes
  | ErrAddAttributes
  | ErrRemoveAttributes

section \<open>ssh\_client.go: NewSSHClient\<close>

text \<open>
  A \<open>*SSHClient\<close> is a reference, modelled as a number; \<open>next_ref\<close> is the next
  reference the allocator hands out. The network is a parameter: \<open>net_env\<close> says how
  the library calls made by the pool and by \<open>NewSSHClient\<close> turn out, and the world
  records the calls in order.
\<close>

datatype auth_method = PasswordAuth string | PublicKeysAuth string

datatype net_event =
    EvWait nat
  | EvDial string string "auth_method list"
  | EvConnClose string
  | EvClose nat

record net_env =
  conn_wait_ok :: "nat \<Rightarrow> bool"
  parse_key_ok :: "string \<Rightarrow> bool"
  is_ip :: "string \<Rightarrow> bool"
  dial_ok :: "string \<Rightarrow> string \<Rightarrow> auth_method list \<Rightarrow> bool"
  sftp_ok :: "string \<Rightarrow> bool"

record world =
  next_ref :: nat
  trace :: "net_event list"

definition is_dial :: "net_event \<Rightarrow> bool" where
  "is_dial ev = (case ev of EvDial addr user auth \<Rightarrow> True | _ \<Rightarrow> False)"

definition dials :: "net_event list \<Rightarrow> nat" where
  "dials evs = length (filter is_dial evs)"

definition emit :: "net_event \<Rightarrow> world \<Rightarrow> world" where
  "emit ev w = w\<lparr>trace := trace w @ [ev]\<rparr>"

text \<open>
  \<open>conn_wait_ok env c\<close>: \<open>c.sshClient.Conn.Wait()\<close> returned \<open>nil\<close>;
  \<open>parse_key_ok env k\<close>: \<open>ssh.ParsePrivateKey\<close> accepted the key;
  \<open>is_ip env h\<close>: \<open>net.ParseIP(h).To16() != nil\<close>;
  \<open>dial_ok env addr user auth\<close>: \<open>ssh.Dial("tcp", addr, sshConfig)\<close> succeeded;
  \<open>sftp_ok env addr\<close>: \<open>sftp.NewClient(client)\<close> succeeded on that connection.
\<close>

definition NewSSHClient :: "net_env \<Rightarrow> SSHConfig \<Rightarrow> world \<Rightarrow> (error + nat) \<times> world" where
  "NewSSHClient env config w =
     (let auth1 = (if Password config \<noteq> [] then [PasswordAuth (Password config)] else [])
      in if PrivateKey config \<noteq> [] \<and> \<not> parse_key_ok env (PrivateKey config)
         then (Inl ErrParsePrivateKey, w)
         else
           (let authMethods =
                  auth1 @ (if PrivateKey config \<noteq> []
                           then [PublicKeysAuth (PrivateKey config)] else [])
            in if authMethods = [] then (Inl ErrNoAuthMethod, w)
               else
                 (let host = (if is_ip env (Host config) then ''['' @ Host config @ '']''
                              else Host config) @ '':'' @ itoa (Port config);
                      w1 = emit (EvDial host (Username config) authMethods) w
                  in if \<not> dial_ok env host (Username config) authMethods
                     then (Inl ErrConnect, w1)
                     else if \<not> sftp_ok env host
                     then (Inl ErrSftpClient, emit (EvConnClose host) w1)
                     else (Inr (next_ref w1), w1\<lparr>next_ref := Suc (next_ref w1)\<rparr>))))"

section \<open>ssh\_pool.go\<close>

text \<open>
  Times are nanoseconds, durations are \<open>int64\<close> nanoseconds; \<open>Time.Sub\<close> saturates
  at the ends of the \<open>Duration\<close> range. \<open>closeOnce\<close> is \<open>True\<close> once the
  \<open>sync.Once\<close> has fired. The mutex is not modelled: every method holds it from its
  first to its last access of the pool, so a call is one atomic step. The logger is
  left out.
\<close>

record pooledClient =
  client :: nat
  lastUsed :: int
  inUse :: bool
  closeOnce :: bool

record SSHPool =
  clients :: "(string, pooledClient) fmap"
  maxIdle :: int
  maxConns :: int

record PoolConfig =
  MaxIdleTime :: int
  MaxConns :: int

definition time_Sub :: "int \<Rightarrow> int \<Rightarrow> int" where
  "time_Sub t u = max (- (2 ^ 63)) (min (2 ^ 63 - 1) (t - u))"

text \<open>\<open>5 * time.Minute\<close> is 300000000000 ns.\<close>

definition NewSSHPool :: "PoolConfig \<Rightarrow> SSHPool" where
  "NewSSHPool config =
     \<lparr>clients = fmempty,
      maxIdle = (if MaxIdleTime config = 0 then 300000000000 else MaxIdleTime config),
      maxConns = (if MaxConns config = 0 then 10 else MaxConns config)\<rparr>"

text \<open>
  \<open>GetClient\<close>, lines 83 to 100: the capacity check and the creation of a client, which
  the three paths without a reusable entry share.
\<close>

definition GetClient_create ::
  "net_env \<Rightarrow> int \<Rightarrow> SSHPool \<Rightarrow> SSHConfig \<Rightarrow> world \<Rightarrow> (error + nat) \<times> SSHPool \<times> world" where
  "GetClient_create env now p config w =
     (if int (fcard (fmdom (clients p))) \<ge> maxConns p
      then (Inl (ErrPoolAtCapacity (maxConns p)), p, w)
      else case NewSSHClient env config w of
             (Inl err, w') \<Rightarrow> (Inl err, p, w')
           | (Inr c, w') \<Rightarrow>
               (Inr c,
                p\<lparr>clients := fmupd (configKey config)
                     \<lparr>client = c, lastUsed = now, inUse = True, closeOnce = False\<rparr>
                     (clients p)\<rparr>,
                w'))"

text \<open>\<open>now\<close> is the value of \<open>time.Now()\<close> read by the call.\<close>

definition GetClient ::
  "net_env \<Rightarrow> int \<Rightarrow> SSHPool \<Rightarrow> SSHConfig \<Rightarrow> world \<Rightarrow> (error + nat) \<times> SSHPool \<times> world" where
  "GetClient env now p config w =
     (let key = configKey config
      in case fmlookup (clients p) key of
           Some pc \<Rightarrow>
             if \<not> inUse pc then
               (let w1 = emit (EvWait (client pc)) w
                in if conn_wait_ok env (client pc)
                   then (Inr (client pc),
                         p\<lparr>clients := fmupd key (pc\<lparr>inUse := True, lastUsed := now\<rparr>)
                              (clients p)\<rparr>,
                         w1)
                   else GetClient_create env now
                          (p\<lparr>clients := fmdrop key (clients p)\<rparr>) config w1)
             else GetClient_create env now p config w
         | None \<Rightarrow> GetClient_create env now p config w)"

definition ReleaseClient :: "int \<Rightarrow> SSHPool \<Rightarrow> SSHConfig \<Rightarrow> SSHPool" where
  "ReleaseClient now p config =
     (let key = configKey config
      in case fmlookup (clients p) key of
           Some pc \<Rightarrow>
             p\<lparr>clients := fmupd key (pc\<lparr>inUse := False, lastUsed := now\<rparr>) (clients p)\<rparr>
         | None \<Rightarrow> p)"

text \<open>
  \<open>pc.closeOnce.Do(func() { pc.client.Close() })\<close>: the client is closed unless the
  guard has fired before. An error of \<open>Close\<close> is only logged.
\<close>

definition closeOnce_Do :: "pooledClient \<Rightarrow> world \<Rightarrow> pooledClient \<times> world" where
  "closeOnce_Do pc w =
     (if closeOnce pc then (pc, w)
      else (pc\<lparr>closeOnce := True\<rparr>, emit (EvClose (client pc)) w))"

text \<open>
  One pass of \<open>cleanup\<close> (the body run at each tick). \<open>keys\<close> is the order in which
  \<open>range p.clients\<close> visits the entries, which Go leaves unspecified; an entry is
  deleted only while it is the current one, so every entry is visited.
\<close>

fun cleanup_entries :: "int \<Rightarrow> string list \<Rightarrow> SSHPool \<Rightarrow> world \<Rightarrow> SSHPool \<times> world" where
  "cleanup_entries now [] p w = (p, w)"
| "cleanup_entries now (key # keys) p w =
     (case fmlookup (clients p) key of
        None \<Rightarrow> cleanup_entries now keys p w
      | Some pc \<Rightarrow>
          if \<not> inUse pc \<and> time_Sub now (lastUsed pc) > maxIdle p
          then (case closeOnce_Do pc w of
                  (pc', w') \<Rightarrow>
                    cleanup_entries now keys (p\<lparr>clients := fmdrop key (clients p)\<rparr>) w')
          else cleanup_entries now keys p w)"

text \<open>The entries the sweep is meant to remove: not in use, and idle for more than \<open>maxIdle\<close>.\<close>

definition idle_expired :: "int \<Rightarrow> SSHPool \<Rightarrow> pooledClient \<Rightarrow> bool" where
  "idle_expired now p pc \<longleftrightarrow> \<not> inUse pc \<and> time_Sub now (lastUsed pc) > maxIdle p"



text \<open>The ticker loop never ends; a finite run of it is a list of ticks.\<close>

fun cleanup :: "(int \<times> string list) list \<Rightarrow> SSHPool \<Rightarrow> world \<Rightarrow> SSHPool \<times> world" where
  "cleanup [] p w = (p, w)"
| "cleanup ((now, keys) # ticks) p w =
     (case cleanup_entries now keys p w of (p', w') \<Rightarrow> cleanup ticks p' w')"

definition Close_entries :: "string list \<Rightarrow> SSHPool \<Rightarrow> world \<Rightarrow> SSHPool \<times> world" where
  "Close_entries keys p w =
     fold (\<lambda>key (p, w).
            case fmlookup (clients p) key of
              None \<Rightarrow> (p, w)
            | Some pc \<Rightarrow>
                (case closeOnce_Do pc w of
                   (pc', w') \<Rightarrow> (p\<lparr>clients := fmdrop key (clients p)\<rparr>, w')))
          keys (p, w)"

text \<open>
  What the pool relies on: the references it holds were handed out by the allocator,
  and no two entries hold the same client.
\<close>

definition pool_inv :: "SSHPool \<Rightarrow> world \<Rightarrow> bool" where
  "pool_inv p w \<longleftrightarrow>
     fmpred (\<lambda>k pc. client pc < next_ref w) (clients p)
     \<and> inj_on (\<lambda>k. map_option client (fmlookup (clients p) k)) (fmdom' (clients p))"

text \<open>
  The pool and the world when a call of \<open>GetClient\<close> that does not reuse an entry
  reaches the capacity check of line 84: an idle entry under the key has been probed
  and deleted by then, anything else is untouched.
\<close>

definition state_at_capacity_check :: "SSHPool \<Rightarrow> SSHConfig \<Rightarrow> world \<Rightarrow> SSHPool \<times> world" where
  "state_at_capacity_check p config w =
     (case fmlookup (clients p) (configKey config) of
        Some pc \<Rightarrow>
          if \<not> inUse pc
          then (p\<lparr>clients := fmdrop (configKey config) (clients p)\<rparr>, emit (EvWait (client pc)) w)
          else (p, w)
      | None \<Rightarrow> (p, w))"

section \<open>ssh\_client.go: operations on the remote host\<close>

text \<open>
  The remote host is a parameter. Its state has an arbitrary type \<open>'h\<close>; \<open>remote\<close>
  says how the calls the client makes through the SFTP channel and through command
  sessions turn out and how they change that state:
  \<^item> \<open>sftp_stat\<close>: \<open>SftpClient.Stat(path)\<close>, which gives the mode, or an error that is
    \<open>os.IsNotExist\<close>, or another error;
  \<^item> \<open>sftp_mkdir_all\<close>, \<open>sftp_chmod\<close>: \<open>SftpClient.MkdirAll\<close> and \<open>SftpClient.Chmod\<close>, with
    success or failure and the state afterwards;
  \<^item> \<open>new_session\<close>: whether \<open>sshClient.NewSession()\<close> succeeds;
  \<^item> \<open>exec\<close>: a command run by \<open>session.Output\<close> or \<open>session.Run\<close>: its standard
    output if it exits with status 0, and the state afterwards;
  \<^item> \<open>quote\<close>: \<open>strconv.Quote\<close>, which the verb \<open>%q\<close> applies to the path.

  A connection is the state of the host together with the calls made so far.
\<close>

datatype stat_result = StatOk "32 word" | StatNotExist | StatError

datatype call =
    CallStat string
  | CallMkdirAll string
  | CallChmod string "32 word"
  | CallNewSession
  | CallOutput string
  | CallRun string

record 'h remote =
  sftp_stat :: "'h \<Rightarrow> string \<Rightarrow> stat_result"
  sftp_mkdir_all :: "'h \<Rightarrow> string \<Rightarrow> bool \<times> 'h"
  sftp_chmod :: "'h \<Rightarrow> string \<Rightarrow> 32 word \<Rightarrow> bool \<times> 'h"
  new_session :: "'h \<Rightarrow> bool"
  exec :: "'h \<Rightarrow> string \<Rightarrow> string option \<times> 'h"
  quote :: "string \<Rightarrow> string"

record 'h conn =
  host :: 'h
  calls :: "call list"

definition called :: "call \<Rightarrow> 'h conn \<Rightarrow> 'h conn" where
  "called cl c = c\<lparr>calls := calls c @ [cl]\<rparr>"




definition NewSession :: "'h remote \<Rightarrow> 'h conn \<Rightarrow> bool \<times> 'h conn" where
  "NewSession env c = (new_session env (host c), called CallNewSession c)"

definition Output :: "'h remote \<Rightarrow> string \<Rightarrow> 'h conn \<Rightarrow> string option \<times> 'h conn" where
  "Output env cmd c =
     (case exec env (host c) cmd of
        (out, h) \<Rightarrow> (out, (called (CallOutput cmd) c)\<lparr>host := h\<rparr>))"



subsection \<open>Directories and modes\<close>




subsection \<open>Ownership\<close>








subsection \<open>Attributes\<close>

definition no_attributes :: FileAttributes where
  "no_attributes = \<lparr>Immutable = False, AppendOnly = False, NoDump = False,
      Synchronous = False, NoAtime = False, Compressed = False, NoCoW = False,
      Undeletable = False\<rparr>"

text \<open>\<open>strings.Contains(attrString, "i")\<close> with a one-byte pattern: the byte occurs.\<close>

definition GetFileAttributes ::
  "'h remote \<Rightarrow> string \<Rightarrow> 'h conn \<Rightarrow> (error + FileAttributes) \<times> 'h conn" where
  "GetFileAttributes env path c =
     (case NewSession env c of
        (False, c1) \<Rightarrow> (Inl ErrNewSession, c1)
      | (True, c1) \<Rightarrow>
          (case Output env (''lsattr -d '' @ quote env path) c1 of
             (None, c2) \<Rightarrow> (Inl ErrGetAttributes, c2)
           | (Some output, c2) \<Rightarrow>
               (if length output \<ge> 16 then
                  (let attrString = take 16 output in
                   (Inr \<lparr>Immutable = CHR ''i'' \<in> set attrString,
                         AppendOnly = CHR ''a'' \<in> set attrString,
                         NoDump = CHR ''d'' \<in> set attrString,
                         Synchronous = CHR ''S'' \<in> set attrString,
                         NoAtime = CHR ''A'' \<in> set attrString,
                         Compressed = CHR ''c'' \<in> set attrString,
                         NoCoW = CHR ''C'' \<in> set attrString,
                         Undeletable = CHR ''u'' \<in> set attrString\<rparr>, c2))
                else (Inr no_attributes, c2))))"

text \<open>The table \<open>attrFlags\<close> and the map \<open>currentAttrMap\<close>, in the order of the source.\<close>

definition attrFlags :: "FileAttributes \<Rightarrow> (string \<times> bool) list" where
  "attrFlags attrs =
     [(''i'', Immutable attrs), (''a'', AppendOnly attrs), (''d'', NoDump attrs),
      (''S'', Synchronous attrs), (''A'', NoAtime attrs), (''c'', Compressed attrs),
      (''C'', NoCoW attrs), (''u'', Undeletable attrs)]"

definition currentAttrMap :: "FileAttributes \<Rightarrow> string \<Rightarrow> bool" where
  "currentAttrMap currentAttrs flag =
     (case map_of (attrFlags currentAttrs) flag of Some b \<Rightarrow> b | None \<Rightarrow> False)"





text \<open>
  The sets the claim speaks of, written as filters over the eight flags: those wanted
  and not set, and those set and not wanted.
\<close>

definition flags_to_add :: "FileAttributes \<Rightarrow> FileAttributes \<Rightarrow> string list" where
  "flags_to_add desired current =
     map fst (filter (\<lambda>(f, want). want \<and> \<not> currentAttrMap current f) (attrFlags desired))"

definition flags_to_remove :: "FileAttributes \<Rightarrow> FileAttributes \<Rightarrow> string list" where
  "flags_to_remove desired current =
     map fst (filter (\<lambda>(f, want). \<not> want \<and> currentAttrMap current f) (attrFlags desired))"


section \<open>Example states\<close>

definition cfg_a :: SSHConfig where
  "cfg_a = \<lparr>Host = ''a.example'', Port = 22, Username = ''root'',
            Password = ''pw'', PrivateKey = ''''\<rparr>"

definition cfg_b :: SSHConfig where
  "cfg_b = \<lparr>Host = ''b.example'', Port = 22, Username = ''root'',
            Password = ''pw'', PrivateKey = ''''\<rparr>"

definition cfg_c :: SSHConfig where
  "cfg_c = \<lparr>Host = ''c.example'', Port = 2222, Username = ''deploy'',
            Password = ''pw'', PrivateKey = ''''\<rparr>"

definition pc_a :: pooledClient where
  "pc_a = \<lparr>client = 0, lastUsed = 0, inUse = False, closeOnce = False\<rparr>"

definition pc_b :: pooledClient where
  "pc_b = \<lparr>client = 1, lastUsed = 100, inUse = True, closeOnce = False\<rparr>"

text \<open>A pool of capacity 2 holding an idle entry for \<open>cfg_a\<close> and a busy one for \<open>cfg_b\<close>.\<close>

definition pool_ab :: SSHPool where
  "pool_ab = \<lparr>clients = fmupd ''a.example:22:root'' pc_a
                           (fmupd ''b.example:22:root'' pc_b fmempty),
              maxIdle = 300000000000, maxConns = 2\<rparr>"

definition world_ab :: world where
  "world_ab = \<lparr>next_ref = 2, trace = []\<rparr>"

text \<open>A network in which everything succeeds, and one in which no host answers.\<close>

definition env_up :: net_env where
  "env_up = \<lparr>conn_wait_ok = (\<lambda>c. True), parse_key_ok = (\<lambda>k. True), is_ip = (\<lambda>h. False),
             dial_ok = (\<lambda>addr user auth. True), sftp_ok = (\<lambda>addr. True)\<rparr>"

definition env_down :: net_env where
  "env_down = \<lparr>conn_wait_ok = (\<lambda>c. False), parse_key_ok = (\<lambda>k. True), is_ip = (\<lambda>h. False),
               dial_ok = (\<lambda>addr user auth. False), sftp_ok = (\<lambda>addr. False)\<rparr>"

definition pool_empty :: SSHPool where
  "pool_empty = NewSSHPool \<lparr>MaxIdleTime = 0, MaxConns = 0\<rparr>"

definition world0 :: world where
  "world0 = \<lparr>next_ref = 0, trace = []\<rparr>"

text \<open>A network in which the cached connections have died but the hosts answer.\<close>

definition env_stale :: net_env where
  "env_stale = \<lparr>conn_wait_ok = (\<lambda>c. False), parse_key_ok = (\<lambda>k. True), is_ip = (\<lambda>h. False),
                dial_ok = (\<lambda>addr user auth. True), sftp_ok = (\<lambda>addr. True)\<rparr>"




text \<open>
  A small host: a table of the modes of its paths, and a fixed table of the commands it
  answers. \<open>MkdirAll\<close> makes a missing path with mode 0755 (493); \<open>Chmod\<close> stores the
  mode of an existing path as given.
\<close>

definition demo_quote :: "string \<Rightarrow> string" where
  "demo_quote p = CHR 0x22 # p @ [CHR 0x22]"

definition demo_outputs :: "(string \<times> string) list" where
  "demo_outputs =
     [(''ls -ldn '' @ demo_quote ''/srv/f'', ''-rw-r--r-- 1 1000 50 0 Feb 19 13:23 /srv/f''),
      (''getent passwd 1000 | cut -d: -f1'', ''bob''),
      (''getent group 50 | cut -d: -f1'', ''staff''),
      (''chown alice:staff '' @ demo_quote ''/srv/f'', []),
      (''lsattr -d '' @ demo_quote ''/srv/f'', ''----i-A------- /srv/f''),
      (''lsattr -d '' @ demo_quote ''/srv/g'', ''lsattr: n/a''),
      (''chattr +a '' @ demo_quote ''/srv/f'', []),
      (''chattr -A '' @ demo_quote ''/srv/f'', [])]"

definition demo_remote :: "(string, 32 word) fmap remote" where
  "demo_remote =
     \<lparr>sftp_stat = (\<lambda>h p. case fmlookup h p of Some m \<Rightarrow> StatOk m | None \<Rightarrow> StatNotExist),
      sftp_mkdir_all =
        (\<lambda>h p. (True, case fmlookup h p of Some m \<Rightarrow> h | None \<Rightarrow> fmupd p 493 h)),
      sftp_chmod =
        (\<lambda>h p m. case fmlookup h p of Some m0 \<Rightarrow> (True, fmupd p m h) | None \<Rightarrow> (False, h)),
      new_session = (\<lambda>h. True),
      exec = (\<lambda>h cmd. (map_of demo_outputs cmd, h)),
      quote = demo_quote\<rparr>"

definition demo_conn :: "(string, 32 word) fmap conn" where
  "demo_conn = \<lparr>host = fmupd ''/srv/f'' 420 fmempty, calls = []\<rparr>"

text \<open>The attributes of \<open>/srv/f\<close> on the small host, and the attributes wanted for it.\<close>

definition attrs_f :: FileAttributes where
  "attrs_f = \<lparr>Immutable = True, AppendOnly = False, NoDump = False, Synchronous = False,
              NoAtime = True, Compressed = False, NoCoW = False, Undeletable = False\<rparr>"

definition attrs_want :: FileAttributes where
  "attrs_want = \<lparr>Immutable = True, AppendOnly = True, NoDump = False, Synchronous = False,
                 NoAtime = False, Compressed = False, NoCoW = False, Undeletable = False\<rparr>"






chapter \<open>Properties\<close>

section \<open>Evaluation rules for the printing functions\<close>

lemma utoa_small: "n < 10 \<Longrightarrow> utoa n = [digit_char n]"
  by (simp add: utoa.simps)

lemma utoa_large: "\<not> n < 10 \<Longrightarrow> utoa n = utoa (n div 10) @ [digit_char (n mod 10)]"
  by (subst utoa.simps) simp

lemma otoa_small: "n < 8 \<Longrightarrow> otoa n = [digit_char n]"
  by (simp add: otoa.simps)

lemma otoa_large: "\<not> n < 8 \<Longrightarrow> otoa n = otoa (n div 8) @ [digit_char (n mod 8)]"
  by (subst otoa.simps) simp

lemma replicate_numeral: "replicate (numeral k) x = x # replicate (pred_numeral k) x"
  by (simp add: numeral_eq_Suc)

section \<open>The pool key\<close>

lemma configKey_ignores_secrets:
  "configKey (config\<lparr>Password := pw, PrivateKey := pk\<rparr>) = configKey config"
  by (simp add: configKey_def)

lemma configKey_same_endpoint:
  "Host a = Host b \<Longrightarrow> Port a = Port b \<Longrightarrow> Username a = Username b \<Longrightarrow>
   configKey a = configKey b"
  by (simp add: configKey_def)

text \<open>
  C3. The key ignores Password and PrivateKey (the two lemmas above), but it is not
  injective on (Host, Port, Username): the separator \<open>:\<close> may occur inside the fields.
  The two configurations below differ in all three of Host, Port and Username and are
  printed to the same key \<open>fd00::1:22:2222:root\<close>.
\<close>

theorem configKey_collision:
  "configKey \<lparr>Host = ''fd00::1'', Port = 22, Username = ''2222:root'',
              Password = ''pw'', PrivateKey = ''''\<rparr>
   = configKey \<lparr>Host = ''fd00::1:22'', Port = 2222, Username = ''root'',
                Password = ''pw'', PrivateKey = ''''\<rparr>
   \<and> (''fd00::1'', 22 :: int, ''2222:root'') \<noteq> (''fd00::1:22'', 2222, ''root'')"
  by (simp add: configKey_def itoa_def utoa_small utoa_large digit_char_def)

section \<open>ParsePermissions\<close>

lemma digit_val_octal:
  "is_octal_digit ch \<Longrightarrow> digit_val ch = Some (of_char ch - 48)"
  by (simp add: is_octal_digit_def digit_val_def Let_def)

lemma digit_val_not_octal:
  "\<not> is_octal_digit ch \<Longrightarrow> digit_val ch = None \<or> (\<exists>d. digit_val ch = Some d \<and> 8 \<le> d)"
  by (auto simp add: is_octal_digit_def digit_val_def Let_def)

lemma octal_value_from_Cons:
  "octal_value_from n (c # cs) = octal_value_from (n * 8 + (of_char c - 48)) cs"
  by (simp add: octal_value_from_def mult.commute)

lemma octal_value_from_snoc:
  "octal_value_from n (cs @ [c]) = 8 * octal_value_from n cs + (of_char c - 48)"
  by (simp add: octal_value_from_def)

lemma octal_value_from_ge: "n \<le> octal_value_from n cs"
proof (induction cs arbitrary: n)
  case Nil
  show ?case by (simp add: octal_value_from_def)
next
  case (Cons c cs)
  have "n \<le> n * 8 + ((of_char c :: nat) - 48)" by simp
  also have "\<dots> \<le> octal_value_from (n * 8 + (of_char c - 48)) cs"
    by (rule Cons.IH)
  finally show ?case by (simp only: octal_value_from_Cons)
qed

lemma pow2_64: "(2::nat) ^ 64 = 18446744073709551616"
  by simp

lemma parse_step_octal:
  assumes "(n::nat) < 4294967296" "(d::nat) < 8"
  shows "\<not> 8 \<le> d" "\<not> 2305843009213693952 \<le> n"
    "(n * 8) mod 18446744073709551616 = n * 8"
    "(n * 8 + d) mod 18446744073709551616 = n * 8 + d"
    "\<not> n * 8 + d < n * 8"
  using assms by auto

lemma maxval_cmp: "((4294967296::nat) - 1 < x) = (\<not> x < 4294967296)"
  by arith

lemma parse_loop_step:
  assumes "n < 4294967296" "d < 8" "digit_val c = Some d"
  shows "parse_loop 8 2305843009213693952 (4294967296 - 1) n (c # cs) =
       (if n * 8 + d < 4294967296
        then parse_loop 8 2305843009213693952 (4294967296 - 1) (n * 8 + d) cs
        else Inl ErrRange)"
  apply (subst parse_loop.simps)
  apply (simp only: assms(3) option.case Let_def pow2_64 parse_step_octal [OF assms(1,2)] if_False)
  apply (simp only: maxval_cmp simp_thms if_True if_False)
  apply (simp only: if_not_P split: if_splits)
  apply (simp only: simp_thms)
  apply blast
  done

lemma parse_loop_bad:
  assumes "\<not> is_octal_digit c"
  shows "parse_loop 8 cutoff maxVal n (c # cs) = Inl ErrSyntax"
  using digit_val_not_octal [OF assms] by (auto simp del: One_nat_def)

lemma parse_loop_octal:
  assumes "list_all is_octal_digit cs" "n < 4294967296"
  shows "parse_loop 8 2305843009213693952 (4294967296 - 1) n cs =
           (if octal_value_from n cs < 4294967296 then Inr (octal_value_from n cs)
            else Inl ErrRange)"
  using assms
proof (induction cs arbitrary: n)
  case Nil
  then show ?case by (simp add: octal_value_from_def)
next
  case (Cons c cs)
  define d where "d = (of_char c :: nat) - 48"
  have oc: "is_octal_digit c" and rest: "list_all is_octal_digit cs"
    using Cons.prems(1) by simp_all
  have d1: "digit_val c = Some d"
    using oc by (simp add: digit_val_octal d_def)
  have d2: "d < 8"
    using oc unfolding is_octal_digit_def d_def by arith
  note step = parse_loop_step [OF Cons.prems(2) d2 d1, of cs]
  have fold: "octal_value_from n (c # cs) = octal_value_from (n * 8 + d) cs"
    by (simp only: octal_value_from_Cons d_def)
  show ?case
  proof (cases "n * 8 + d < 4294967296")
    case True
    show ?thesis
      unfolding step fold using Cons.IH [OF rest True] True by (simp only: if_True)
  next
    case False
    have "n * 8 + d \<le> octal_value_from (n * 8 + d) cs"
      by (rule octal_value_from_ge)
    then have "\<not> octal_value_from (n * 8 + d) cs < 4294967296"
      using False by linarith
    then show ?thesis
      unfolding step fold using False by (simp only: if_False)
  qed
qed

lemma parse_loop_not_octal:
  assumes "\<not> list_all is_octal_digit cs" "n < 4294967296"
  shows "isl (parse_loop 8 2305843009213693952 (4294967296 - 1) n cs)"
  using assms
proof (induction cs arbitrary: n)
  case Nil
  then show ?case by simp
next
  case (Cons c cs)
  show ?case
  proof (cases "is_octal_digit c")
    case False
    show ?thesis by (simp only: parse_loop_bad [OF False] sum.disc)
  next
    case True
    define d where "d = (of_char c :: nat) - 48"
    have rest: "\<not> list_all is_octal_digit cs"
      using Cons.prems(1) True by simp
    have d1: "digit_val c = Some d"
      using True by (simp add: digit_val_octal d_def)
    have d2: "d < 8"
      using True unfolding is_octal_digit_def d_def by arith
    note step = parse_loop_step [OF Cons.prems(2) d2 d1, of cs]
    show ?thesis
    proof (cases "n * 8 + d < 4294967296")
      case lt: True
      show ?thesis unfolding step using Cons.IH [OF rest lt] lt by (simp only: if_True)
    next
      case ge: False
      show ?thesis unfolding step using ge by (simp only: if_False sum.disc)
    qed
  qed
qed

lemma ParseUint_8_32:
  "s \<noteq> [] \<Longrightarrow> ParseUint s 8 32 = parse_loop 8 2305843009213693952 (4294967296 - 1) 0 s"
  by (simp add: ParseUint_def Let_def)

lemma ParsePermissions_valid:
  assumes "octal_string P" "octal_value P < 4294967296"
  shows "ParsePermissions P = word_of_nat (octal_value P)"
proof -
  have ne: "P \<noteq> []" and oc: "list_all is_octal_digit P"
    using assms(1) by (simp_all add: octal_string_def)
  have "ParseUint P 8 32 = Inr (octal_value P)"
    unfolding ParseUint_8_32 [OF ne] octal_value_def
    using parse_loop_octal [OF oc, of 0] assms(2) by (simp add: octal_value_def)
  then show ?thesis using ne by (simp add: ParsePermissions_def)
qed

lemma ParsePermissions_default:
  assumes "\<not> (octal_string P \<and> octal_value P < 4294967296)"
  shows "ParsePermissions P = 420"
proof (cases "P = []")
  case True
  then show ?thesis by (simp add: ParsePermissions_def)
next
  case ne: False
  show ?thesis
  proof (cases "list_all is_octal_digit P")
    case True
    then have "\<not> octal_value_from 0 P < 4294967296"
      using assms ne by (simp add: octal_string_def octal_value_def)
    then have "ParseUint P 8 32 = Inl ErrRange"
      unfolding ParseUint_8_32 [OF ne] using parse_loop_octal [OF True, of 0] by simp
    then show ?thesis using ne by (simp add: ParsePermissions_def)
  next
    case False
    have "isl (ParseUint P 8 32)"
      unfolding ParseUint_8_32 [OF ne] by (rule parse_loop_not_octal [OF False]) simp
    then obtain e where "ParseUint P 8 32 = Inl e"
      by (cases "ParseUint P 8 32") simp_all
    then show ?thesis using ne by (simp add: ParsePermissions_def)
  qed
qed

lemma of_char_zero: "((of_char c :: nat) = 48) = (c = CHR ''0'')"
proof
  assume "(of_char c :: nat) = 48"
  then have "(of_char c :: nat) = of_char CHR ''0''" by simp
  then show "c = CHR ''0''" by (simp only: of_char_eq_iff)
next
  assume "c = CHR ''0''"
  then show "(of_char c :: nat) = 48" by simp
qed

lemma octal_value_zero_iff:
  "list_all is_octal_digit cs \<Longrightarrow>
   (octal_value_from 0 cs = 0) = (\<forall>c \<in> set cs. c = CHR ''0'')"
proof (induction cs rule: rev_induct)
  case Nil
  show ?case by (simp add: octal_value_from_def)
next
  case (snoc c cs)
  have oc: "is_octal_digit c" and rest: "list_all is_octal_digit cs"
    using snoc.prems by simp_all
  have "((of_char c :: nat) - 48 = 0) = (c = CHR ''0'')"
    using oc of_char_zero [of c] unfolding is_octal_digit_def by arith
  then show ?case
    using snoc.IH [OF rest] by (auto simp add: octal_value_from_snoc)
qed

lemma of_char_digit_char: "d < 8 \<Longrightarrow> of_char (digit_char d) = 48 + d"
proof -
  assume "d < 8"
  then have "d \<in> {0, 1, 2, 3, 4, 5, 6, 7}" by auto
  then show ?thesis by (auto simp: digit_char_def)
qed

lemma digit_char_of_octal: "is_octal_digit c \<Longrightarrow> digit_char (of_char c - 48) = c"
proof -
  assume a: "is_octal_digit c"
  define d where "d = (of_char c :: nat) - 48"
  have "d < 8" using a unfolding is_octal_digit_def d_def by arith
  then have "of_char (digit_char d) = 48 + d" by (rule of_char_digit_char)
  also have "\<dots> = of_char c" using a unfolding is_octal_digit_def d_def by arith
  finally have "(of_char (digit_char d) :: nat) = of_char c" .
  then show ?thesis unfolding d_def by simp
qed

lemma otoa_octal_value:
  "list_all is_octal_digit cs \<Longrightarrow>
   otoa (octal_value_from 0 cs) =
     (if dropWhile (\<lambda>ch. ch = CHR ''0'') cs = [] then ''0''
      else dropWhile (\<lambda>ch. ch = CHR ''0'') cs)"
proof (induction cs rule: rev_induct)
  case Nil
  show ?case by (simp add: octal_value_from_def otoa_small digit_char_def)
next
  case (snoc c cs)
  have oc: "is_octal_digit c" and rest: "list_all is_octal_digit cs"
    using snoc.prems by simp_all
  define d where "d = (of_char c :: nat) - 48"
  define v where "v = octal_value_from 0 cs"
  have d2: "d < 8" using oc unfolding is_octal_digit_def d_def by arith
  have dc: "digit_char d = c" unfolding d_def using oc by (rule digit_char_of_octal)
  have val: "octal_value_from 0 (cs @ [c]) = 8 * v + d"
    by (simp only: octal_value_from_snoc v_def d_def)
  show ?case
  proof (cases "v = 0")
    case True
    then have zeros: "\<forall>x \<in> set cs. x = CHR ''0''"
      using octal_value_zero_iff [OF rest] by (simp add: v_def)
    have dw: "dropWhile (\<lambda>ch. ch = CHR ''0'') (cs @ [c]) = (if c = CHR ''0'' then [] else [c])"
      using zeros by (simp add: dropWhile_append)
    have "otoa (8 * v + d) = [c]"
      using True d2 dc by (simp add: otoa_small)
    then show ?thesis unfolding val dw by auto
  next
    case False
    then have nz: "\<not> (\<forall>x \<in> set cs. x = CHR ''0'')"
      using octal_value_zero_iff [OF rest] by (simp add: v_def)
    then have ne: "dropWhile (\<lambda>ch. ch = CHR ''0'') cs \<noteq> []"
      by (simp add: dropWhile_eq_Nil_conv)
    have dw: "dropWhile (\<lambda>ch. ch = CHR ''0'') (cs @ [c]) =
              dropWhile (\<lambda>ch. ch = CHR ''0'') cs @ [c]"
      using nz by (simp add: dropWhile_append)
    have big: "\<not> 8 * v + d < 8" using False by arith
    have dm: "(8 * v + d) div 8 = v" "(8 * v + d) mod 8 = d" using d2 by simp_all
    have "otoa (8 * v + d) = otoa v @ [c]"
      by (simp only: otoa_large [OF big] dm dc)
    also have "otoa v = dropWhile (\<lambda>ch. ch = CHR ''0'') cs"
      using snoc.IH [OF rest] ne by (simp only: v_def if_False)
    finally show ?thesis unfolding val dw using ne by simp
  qed
qed

lemma fmt_04o_canonical:
  assumes "list_all is_octal_digit cs" "octal_value_from 0 cs < 4294967296"
  shows "fmt_04o (word_of_nat (octal_value_from 0 cs)) = canonical_perm cs"
proof -
  have u: "unat (word_of_nat (octal_value_from 0 cs) :: 32 word) = octal_value_from 0 cs"
    using assms(2) by (simp add: unat_of_nat)
  show ?thesis
  proof (cases "dropWhile (\<lambda>ch. ch = CHR ''0'') cs = []")
    case True
    show ?thesis
      unfolding fmt_04o_def canonical_perm_def u Let_def otoa_octal_value [OF assms(1)]
      by (simp only: True if_True) (simp add: replicate_numeral)
  next
    case False
    show ?thesis
      unfolding fmt_04o_def canonical_perm_def u Let_def otoa_octal_value [OF assms(1)]
      by (simp only: False if_False)
  qed
qed

text \<open>
  C6, as the code has it. An octal string whose value fits the 32 bits of the result is
  parsed to that value, and printing the result with \<open>%04o\<close> gives the canonical form
  of the string; the empty string, a string with any other character, and an octal
  string whose value is \<open>2 ^ 32\<close> or more all give the default 0644 (420).
\<close>

theorem ParsePermissions_octal:
  "(octal_string P \<and> octal_value P < 2 ^ 32 \<longrightarrow>
      unat (ParsePermissions P) = octal_value P
      \<and> fmt_04o (ParsePermissions P) = canonical_perm P)
   \<and> (\<not> (octal_string P \<and> octal_value P < 2 ^ 32) \<longrightarrow> ParsePermissions P = 420)"
proof (intro conjI impI)
  assume a: "octal_string P \<and> octal_value P < 2 ^ 32"
  then have os: "octal_string P" and lt: "octal_value P < 4294967296" by simp_all
  have p: "ParsePermissions P = word_of_nat (octal_value P)"
    by (rule ParsePermissions_valid [OF os lt])
  show "unat (ParsePermissions P) = octal_value P"
    unfolding p using lt by (simp add: unat_of_nat)
  have oc: "list_all is_octal_digit P" using os by (simp add: octal_string_def)
  show "fmt_04o (ParsePermissions P) = canonical_perm P"
    unfolding p octal_value_def
    by (rule fmt_04o_canonical [OF oc]) (use lt in \<open>simp add: octal_value_def\<close>)
next
  assume "\<not> (octal_string P \<and> octal_value P < 2 ^ 32)"
  then have "\<not> (octal_string P \<and> octal_value P < 4294967296)" by simp
  then show "ParsePermissions P = 420" by (rule ParsePermissions_default)
qed

theorem ParsePermissions_octal_witness:
  "octal_string ''0755'' \<and> octal_value ''0755'' < 2 ^ 32
   \<and> unat (ParsePermissions ''0755'') = 493
   \<and> fmt_04o (ParsePermissions ''0755'') = ''0755''
   \<and> \<not> octal_string ''rwx'' \<and> ParsePermissions ''rwx'' = 420"
proof -
  have h1: "octal_string ''0755'' \<and> octal_value ''0755'' < 2 ^ 32"
    by (simp add: octal_string_def is_octal_digit_def octal_value_def octal_value_from_def)
  have h2: "\<not> octal_string ''rwx''"
    by (simp add: octal_string_def is_octal_digit_def)
  have v: "octal_value ''0755'' = 493" "canonical_perm ''0755'' = ''0755''"
    by (simp_all add: octal_value_def octal_value_from_def canonical_perm_def)
  show ?thesis
    using h1 h2 v ParsePermissions_octal [of "''0755''"] ParsePermissions_octal [of "''rwx''"]
    by simp
qed

text \<open>
  The claim as stated fails for an octal string that is too large: \<open>40000000000\<close> is a
  string of octal digits denoting \<open>2 ^ 32\<close>, and the result is the default 420.
\<close>

theorem ParsePermissions_range_counterexample:
  "octal_string ''40000000000'' \<and> octal_value ''40000000000'' = 4294967296
   \<and> ParsePermissions ''40000000000'' = 420
   \<and> unat (ParsePermissions ''40000000000'') \<noteq> octal_value ''40000000000''"
  by (simp add: octal_string_def is_octal_digit_def octal_value_def octal_value_from_def
      ParsePermissions_def ParseUint_def digit_val_def Let_def)

section \<open>The pool\<close>

subsection \<open>Keys of the example configurations\<close>

lemma key_a: "configKey cfg_a = ''a.example:22:root''"
  by (simp add: cfg_a_def configKey_def itoa_def utoa_small utoa_large digit_char_def)
lemma key_b: "configKey cfg_b = ''b.example:22:root''"
  by (simp add: cfg_b_def configKey_def itoa_def utoa_small utoa_large digit_char_def)
lemma key_c: "configKey cfg_c = ''c.example:2222:deploy''"
  by (simp add: cfg_c_def configKey_def itoa_def utoa_small utoa_large digit_char_def)

subsection \<open>ReleaseClient\<close>

text \<open>
  C5. If the pool has an entry for the key of the configuration, \<open>ReleaseClient\<close> sets
  \<open>inUse\<close> to false and \<open>lastUsed\<close> to the current time in that entry and leaves its
  client and close guard, every other entry, the set of keys and the limits of the pool
  as they were; if there is no entry, the pool is unchanged. The function returns the
  pool and nothing else: it has no error result and makes no call to the network.
\<close>

theorem ReleaseClient_frame:
  "(\<forall>pc. fmlookup (clients p) (configKey config) = Some pc \<longrightarrow>
       fmlookup (clients (ReleaseClient now p config)) (configKey config)
         = Some (pc\<lparr>inUse := False, lastUsed := now\<rparr>)
       \<and> (\<forall>k. k \<noteq> configKey config \<longrightarrow>
             fmlookup (clients (ReleaseClient now p config)) k = fmlookup (clients p) k))
   \<and> (fmlookup (clients p) (configKey config) = None \<longrightarrow> ReleaseClient now p config = p)
   \<and> fmdom (clients (ReleaseClient now p config)) = fmdom (clients p)
   \<and> maxIdle (ReleaseClient now p config) = maxIdle p
   \<and> maxConns (ReleaseClient now p config) = maxConns p"
proof (cases "fmlookup (clients p) (configKey config)")
  case None
  then show ?thesis by (simp add: ReleaseClient_def)
next
  case (Some pc)
  then have "configKey config |\<in>| fmdom (clients p)" by (simp add: fmdomI)
  then show ?thesis using Some by (auto simp add: ReleaseClient_def)
qed

theorem ReleaseClient_frame_witness:
  "fmlookup (clients pool_ab) (configKey cfg_b) = Some pc_b
   \<and> fmlookup (clients (ReleaseClient 500 pool_ab cfg_b)) (configKey cfg_b)
       = Some \<lparr>client = 1, lastUsed = 500, inUse = False, closeOnce = False\<rparr>
   \<and> configKey cfg_a \<noteq> configKey cfg_b
   \<and> fmlookup (clients (ReleaseClient 500 pool_ab cfg_b)) (configKey cfg_a) = Some pc_a
   \<and> fmlookup (clients pool_ab) (configKey cfg_c) = None
   \<and> ReleaseClient 500 pool_ab cfg_c = pool_ab"
proof -
  have h1: "fmlookup (clients pool_ab) (configKey cfg_b) = Some pc_b"
    by (simp add: pool_ab_def key_b)
  have h2: "configKey cfg_a \<noteq> configKey cfg_b"
    by (simp add: key_a key_b)
  have h3: "fmlookup (clients pool_ab) (configKey cfg_c) = None"
    by (simp add: pool_ab_def key_c)
  have h4: "fmlookup (clients pool_ab) (configKey cfg_a) = Some pc_a"
    by (simp add: pool_ab_def key_a)
  show ?thesis
    using h1 h2 h3 h4 ReleaseClient_frame [of pool_ab cfg_b 500]
      ReleaseClient_frame [of pool_ab cfg_c 500]
    by (simp add: pc_b_def)
qed
subsection \<open>Allocation, the invariant and the creation path\<close>


lemma emit_simps [simp]:
  "next_ref (emit ev w) = next_ref w" "trace (emit ev w) = trace w @ [ev]"
  by (simp_all add: emit_def)

lemma NewSSHClient_Inr:
  assumes "NewSSHClient env config w = (Inr c, w')"
  shows "c = next_ref w" "next_ref w' = Suc (next_ref w)"
    "dials (trace w') = Suc (dials (trace w))"
  using assms
  by (auto simp add: NewSSHClient_def Let_def dials_def is_dial_def split: if_splits)

lemma NewSSHClient_Inl:
  assumes "NewSSHClient env config w = (Inl e, w')"
  shows "next_ref w' = next_ref w" "dials (trace w') \<le> Suc (dials (trace w))"
  using assms
  by (auto simp add: NewSSHClient_def Let_def dials_def is_dial_def split: if_splits)

lemma NewSSHClient_dials:
  assumes "NewSSHClient env config w = (res, w')"
  shows "dials (trace w') \<le> Suc (dials (trace w))"
  using assms NewSSHClient_Inl(2) [of env config w _ w'] NewSSHClient_Inr(3) [of env config w _ w']
  by (cases res) auto

lemma inj_clients_iff:
  "inj_on (\<lambda>k. map_option client (fmlookup m k)) (fmdom' m) \<longleftrightarrow>
     (\<forall>k k' pc pc'. fmlookup m k = Some pc \<and> fmlookup m k' = Some pc'
            \<and> client pc = client pc' \<longrightarrow> k = k')"
proof
  assume inj: "inj_on (\<lambda>k. map_option client (fmlookup m k)) (fmdom' m)"
  show "\<forall>k k' pc pc'. fmlookup m k = Some pc \<and> fmlookup m k' = Some pc'
            \<and> client pc = client pc' \<longrightarrow> k = k'"
  proof (intro allI impI)
    fix k k' pc pc'
    assume a: "fmlookup m k = Some pc \<and> fmlookup m k' = Some pc' \<and> client pc = client pc'"
    have 1: "map_option client (fmlookup m k) = map_option client (fmlookup m k')"
      using a by simp
    have 2: "k \<in> fmdom' m" using a by (simp add: fmlookup_dom'_iff)
    have 3: "k' \<in> fmdom' m" using a by (simp add: fmlookup_dom'_iff)
    show "k = k'" by (rule inj_onD [OF inj 1 2 3])
  qed
next
  assume q: "\<forall>k k' pc pc'. fmlookup m k = Some pc \<and> fmlookup m k' = Some pc'
            \<and> client pc = client pc' \<longrightarrow> k = k'"
  show "inj_on (\<lambda>k. map_option client (fmlookup m k)) (fmdom' m)"
  proof (rule inj_onI)
    fix k k'
    assume a: "k \<in> fmdom' m" "k' \<in> fmdom' m"
      "map_option client (fmlookup m k) = map_option client (fmlookup m k')"
    from a(1) obtain pc where 1: "fmlookup m k = Some pc"
      unfolding fmlookup_dom'_iff by blast
    from a(2) obtain pc' where 2: "fmlookup m k' = Some pc'"
      unfolding fmlookup_dom'_iff by blast
    from a(3) have "client pc = client pc'" unfolding 1 2 by simp
    then show "k = k'" using q 1 2 by blast
  qed
qed

lemma pool_inv_iff:
  "pool_inv p w \<longleftrightarrow>
     (\<forall>k pc. fmlookup (clients p) k = Some pc \<longrightarrow> client pc < next_ref w)
     \<and> (\<forall>k k' pc pc'. fmlookup (clients p) k = Some pc \<and> fmlookup (clients p) k' = Some pc'
            \<and> client pc = client pc' \<longrightarrow> k = k')"
  unfolding pool_inv_def fmpred_iff inj_clients_iff ..

lemma pool_inv_fresh:
  "pool_inv p w \<Longrightarrow> fmlookup (clients p) k = Some pc \<Longrightarrow> client pc < next_ref w"
  unfolding pool_inv_iff by blast

lemma pool_inv_inj:
  "pool_inv p w \<Longrightarrow> fmlookup (clients p) k = Some pc \<Longrightarrow> fmlookup (clients p) k' = Some pc'
   \<Longrightarrow> client pc = client pc' \<Longrightarrow> k = k'"
  unfolding pool_inv_iff by blast

lemma GetClient_create_cases:
  assumes "GetClient_create env now p config w = (res, p', w')"
  shows "(maxConns p \<le> int (fcard (fmdom (clients p)))
            \<and> res = Inl (ErrPoolAtCapacity (maxConns p)) \<and> p' = p \<and> w' = w)
       \<or> (int (fcard (fmdom (clients p))) < maxConns p
            \<and> NewSSHClient env config w = (res, w')
            \<and> ((\<exists>e. res = Inl e \<and> p' = p)
               \<or> (\<exists>c. res = Inr c \<and> c = next_ref w
                    \<and> p' = p\<lparr>clients := fmupd (configKey config)
                          \<lparr>client = c, lastUsed = now, inUse = True, closeOnce = False\<rparr>
                          (clients p)\<rparr>)))"
proof (cases "maxConns p \<le> int (fcard (fmdom (clients p)))")
  case True
  then show ?thesis using assms by (auto simp add: GetClient_create_def)
next
  case False
  obtain r w1 where n: "NewSSHClient env config w = (r, w1)" by (cases "NewSSHClient env config w")
  show ?thesis
  proof (cases r)
    case (Inl e)
    then show ?thesis using assms False n by (auto simp add: GetClient_create_def)
  next
    case (Inr c)
    then have "c = next_ref w" using n NewSSHClient_Inr(1) by simp
    then show ?thesis using assms False n Inr by (auto simp add: GetClient_create_def)
  qed
qed

subsection \<open>Runs of GetClient on the example states\<close>


lemma addr_a: "itoa (Port cfg_a) = ''22''"
  by (simp add: cfg_a_def itoa_def utoa_small utoa_large digit_char_def)

lemmas pool_eval = GetClient_def GetClient_create_def NewSSHClient_def state_at_capacity_check_def
  Let_def emit_def fcard_finsert_if fcard_fempty key_a key_b key_c addr_a
  pool_ab_def pool_empty_def NewSSHPool_def world_ab_def world0_def env_up_def env_down_def env_stale_def pc_a_def pc_b_def

lemma run_cap: "GetClient env_up 600 pool_ab cfg_c world_ab
                 = (Inl (ErrPoolAtCapacity 2), pool_ab, world_ab)"
  by (simp add: pool_eval)

lemma run_new: "GetClient env_up 600 pool_empty cfg_a world0
                 = (Inr 0,
                    pool_empty\<lparr>clients := fmupd ''a.example:22:root''
                        \<lparr>client = 0, lastUsed = 600, inUse = True, closeOnce = False\<rparr> fmempty\<rparr>,
                    \<lparr>next_ref = 1,
                     trace = [EvDial ''a.example:22'' ''root'' [PasswordAuth ''pw'']]\<rparr>)"
  by (simp add: pool_eval) (simp add: cfg_a_def)

lemma run_fail: "GetClient env_down 600 pool_empty cfg_a world0
                 = (Inl ErrConnect, pool_empty,
                    \<lparr>next_ref = 0,
                     trace = [EvDial ''a.example:22'' ''root'' [PasswordAuth ''pw'']]\<rparr>)"
  by (simp add: pool_eval) (simp add: cfg_a_def)

subsection \<open>GetClient: the capacity check\<close>


lemma GetClient_no_reuse:
  assumes "\<forall>pc. fmlookup (clients p) (configKey config) = Some pc \<longrightarrow>
             inUse pc \<or> \<not> conn_wait_ok env (client pc)"
    and "state_at_capacity_check p config w = (p1, w1)"
  shows "GetClient env now p config w = GetClient_create env now p1 config w1"
  using assms
  by (auto simp add: GetClient_def state_at_capacity_check_def Let_def split: option.splits if_splits)

lemma state_at_capacity_check_frame:
  assumes "state_at_capacity_check p config w = (p1, w1)"
  shows "maxConns p1 = maxConns p" "maxIdle p1 = maxIdle p" "next_ref w1 = next_ref w"
    "dials (trace w1) = dials (trace w)"
  using assms
  by (auto simp add: state_at_capacity_check_def dials_def is_dial_def split: option.splits if_splits)

text \<open>
  C2, as the code has it. Take a call of \<open>GetClient\<close> without a reusable entry (no entry
  under the key, an entry in use, or an idle entry whose connection is dead), and let
  \<open>p1\<close> and \<open>w1\<close> be the pool and the world at the capacity check. If the mapping
  holds at least \<open>maxConns\<close> entries, the call returns the capacity error at once: the
  pool and the world stay as they are at the check, so nothing is dialled and nothing
  is waited for. Otherwise \<open>NewSSHClient\<close> is called exactly once and its result is the
  result of the call: at most one connection is dialled; if a client comes back, it is
  a new reference, one connection was dialled and an entry marked in use is stored
  under the key; if an error comes back, the pool stays as it is at the check.
\<close>

theorem GetClient_capacity:
  assumes run: "GetClient env now p config w = (res, p', w')"
    and nr: "\<forall>pc. fmlookup (clients p) (configKey config) = Some pc \<longrightarrow>
               inUse pc \<or> \<not> conn_wait_ok env (client pc)"
    and st: "state_at_capacity_check p config w = (p1, w1)"
  shows "(maxConns p \<le> int (fcard (fmdom (clients p1))) \<longrightarrow>
            res = Inl (ErrPoolAtCapacity (maxConns p)) \<and> p' = p1 \<and> w' = w1)
       \<and> (int (fcard (fmdom (clients p1))) < maxConns p \<longrightarrow>
            NewSSHClient env config w1 = (res, w')
          \<and> dials (trace w') \<le> Suc (dials (trace w))
          \<and> (\<forall>c. res = Inr c \<longrightarrow>
                 dials (trace w') = Suc (dials (trace w))
               \<and> c = next_ref w
               \<and> p' = p1\<lparr>clients := fmupd (configKey config)
                         \<lparr>client = c, lastUsed = now, inUse = True, closeOnce = False\<rparr>
                         (clients p1)\<rparr>)
          \<and> (\<forall>e. res = Inl e \<longrightarrow> p' = p1))"
proof -
  note fr = state_at_capacity_check_frame [OF st]
  have c: "GetClient_create env now p1 config w1 = (res, p', w')"
    using GetClient_no_reuse [OF nr st] run by simp
  note cs = GetClient_create_cases [OF c]
  show ?thesis
  proof (rule conjI; rule impI)
    assume cap: "maxConns p \<le> int (fcard (fmdom (clients p1)))"
    then show "res = Inl (ErrPoolAtCapacity (maxConns p)) \<and> p' = p1 \<and> w' = w1"
      using cs fr(1) by auto
  next
    assume lt: "int (fcard (fmdom (clients p1))) < maxConns p"
    then have n: "NewSSHClient env config w1 = (res, w')" using cs fr(1) by auto
    have d: "dials (trace w') \<le> Suc (dials (trace w))"
      using NewSSHClient_dials [OF n] fr(4) by simp
    have ok: "\<forall>c. res = Inr c \<longrightarrow>
                 dials (trace w') = Suc (dials (trace w))
               \<and> c = next_ref w
               \<and> p' = p1\<lparr>clients := fmupd (configKey config)
                         \<lparr>client = c, lastUsed = now, inUse = True, closeOnce = False\<rparr>
                         (clients p1)\<rparr>"
    proof (intro allI impI)
      fix c assume r: "res = Inr c"
      have "dials (trace w') = Suc (dials (trace w1))"
        using NewSSHClient_Inr(3) n r by simp
      then show "dials (trace w') = Suc (dials (trace w))
               \<and> c = next_ref w
               \<and> p' = p1\<lparr>clients := fmupd (configKey config)
                         \<lparr>client = c, lastUsed = now, inUse = True, closeOnce = False\<rparr>
                         (clients p1)\<rparr>"
        using cs lt fr r by auto
    qed
    have bad: "\<forall>e. res = Inl e \<longrightarrow> p' = p1" using cs lt fr by auto
    show "NewSSHClient env config w1 = (res, w')
          \<and> dials (trace w') \<le> Suc (dials (trace w))
          \<and> (\<forall>c. res = Inr c \<longrightarrow>
                 dials (trace w') = Suc (dials (trace w))
               \<and> c = next_ref w
               \<and> p' = p1\<lparr>clients := fmupd (configKey config)
                         \<lparr>client = c, lastUsed = now, inUse = True, closeOnce = False\<rparr>
                         (clients p1)\<rparr>)
          \<and> (\<forall>e. res = Inl e \<longrightarrow> p' = p1)"
      using n d ok bad by blast
  qed
qed

theorem GetClient_capacity_witness:
  "GetClient env_up 600 pool_ab cfg_c world_ab = (Inl (ErrPoolAtCapacity 2), pool_ab, world_ab)
   \<and> fmlookup (clients pool_ab) (configKey cfg_c) = None
   \<and> state_at_capacity_check pool_ab cfg_c world_ab = (pool_ab, world_ab)
   \<and> maxConns pool_ab \<le> int (fcard (fmdom (clients pool_ab)))
   \<and> fmlookup (clients pool_empty) (configKey cfg_a) = None
   \<and> state_at_capacity_check pool_empty cfg_a world0 = (pool_empty, world0)
   \<and> int (fcard (fmdom (clients pool_empty))) < maxConns pool_empty
   \<and> fst (GetClient env_up 600 pool_empty cfg_a world0) = Inr 0
   \<and> NewSSHClient env_up cfg_a world0
       = (Inr 0, \<lparr>next_ref = 1, trace = [EvDial ''a.example:22'' ''root'' [PasswordAuth ''pw'']]\<rparr>)
   \<and> fst (GetClient env_down 600 pool_empty cfg_a world0) = Inl ErrConnect
   \<and> fst (snd (GetClient env_down 600 pool_empty cfg_a world0)) = pool_empty"
proof -
  have n1: "\<forall>pc. fmlookup (clients pool_ab) (configKey cfg_c) = Some pc \<longrightarrow>
               inUse pc \<or> \<not> conn_wait_ok env_up (client pc)"
    and l1: "fmlookup (clients pool_ab) (configKey cfg_c) = None"
    by (simp_all add: pool_ab_def key_c)
  have s1: "state_at_capacity_check pool_ab cfg_c world_ab = (pool_ab, world_ab)"
    by (simp add: state_at_capacity_check_def pool_ab_def key_c)
  have c1: "maxConns pool_ab \<le> int (fcard (fmdom (clients pool_ab)))"
    by (simp add: pool_ab_def fcard_finsert_if)
  have n2: "\<forall>pc. fmlookup (clients pool_empty) (configKey cfg_a) = Some pc \<longrightarrow>
               inUse pc \<or> \<not> conn_wait_ok env_up (client pc)"
    and n3: "\<forall>pc. fmlookup (clients pool_empty) (configKey cfg_a) = Some pc \<longrightarrow>
               inUse pc \<or> \<not> conn_wait_ok env_down (client pc)"
    and l2: "fmlookup (clients pool_empty) (configKey cfg_a) = None"
    by (simp_all add: pool_empty_def NewSSHPool_def)
  have s2: "state_at_capacity_check pool_empty cfg_a world0 = (pool_empty, world0)"
    by (simp add: state_at_capacity_check_def pool_empty_def NewSSHPool_def)
  have c2: "int (fcard (fmdom (clients pool_empty))) < maxConns pool_empty"
    by (simp add: pool_empty_def NewSSHPool_def fcard_fempty)
  note t1 = GetClient_capacity [OF run_cap n1 s1]
  note t2 = GetClient_capacity [OF run_new n2 s2]
  note t3 = GetClient_capacity [OF run_fail n3 s2]
  show ?thesis
    using l1 s1 c1 l2 s2 c2 t1 t2 t3 by (simp add: run_cap run_new run_fail)
qed

text \<open>
  The claim as stated has every call below capacity open a session and insert an entry.
  When no host answers, the call on an empty pool of capacity 10 dials once, returns
  the connection error and inserts nothing.
\<close>

theorem GetClient_connect_failure_counterexample:
  "fmlookup (clients pool_empty) (configKey cfg_a) = None
   \<and> int (fcard (fmdom (clients pool_empty))) < maxConns pool_empty
   \<and> GetClient env_down 600 pool_empty cfg_a world0
       = (Inl ErrConnect, pool_empty,
          \<lparr>next_ref = 0, trace = [EvDial ''a.example:22'' ''root'' [PasswordAuth ''pw'']]\<rparr>)
   \<and> fmlookup (clients (fst (snd (GetClient env_down 600 pool_empty cfg_a world0))))
        (configKey cfg_a) = None"
  by (simp add: pool_eval) (simp add: cfg_a_def)
subsection \<open>GetClient: reuse of a cached client\<close>










subsection \<open>The idle sweep\<close>


lemma idle_expired_drop [simp]:
  "idle_expired now (p\<lparr>clients := m\<rparr>) pc = idle_expired now p pc"
  by (simp add: idle_expired_def)



lemma closeOnce_Do_world:
  "snd (closeOnce_Do pc w) = (if closeOnce pc then w else emit (EvClose (client pc)) w)"
  by (simp add: closeOnce_Do_def)

lemma cleanup_entries_step:
  "cleanup_entries now (key # keys) p w =
     (case fmlookup (clients p) key of
        None \<Rightarrow> cleanup_entries now keys p w
      | Some pc \<Rightarrow>
          if idle_expired now p pc
          then cleanup_entries now keys (p\<lparr>clients := fmdrop key (clients p)\<rparr>)
                 (if closeOnce pc then w else emit (EvClose (client pc)) w)
          else cleanup_entries now keys p w)"
  by (simp add: idle_expired_def closeOnce_Do_def split: option.splits)












subsection \<open>The invariant holds in every reachable pool\<close>

text \<open>
  A new pool satisfies \<open>pool_inv\<close>, and \<open>GetClient\<close>, \<open>ReleaseClient\<close> and the sweep
  preserve it.
\<close>


lemma pool_inv_NewSSHPool: "pool_inv (NewSSHPool config) w"
  by (simp add: pool_inv_iff NewSSHPool_def)

lemma pool_inv_ReleaseClient:
  assumes "pool_inv p w"
  shows "pool_inv (ReleaseClient now p config) w"
proof (cases "fmlookup (clients p) (configKey config)")
  case None
  then show ?thesis using assms by (simp add: ReleaseClient_def)
next
  case (Some pc)
  have "pool_inv (p\<lparr>clients := fmupd (configKey config) (pc\<lparr>inUse := False, lastUsed := now\<rparr>)
          (clients p)\<rparr>) w"
    unfolding pool_inv_iff
  proof (intro conjI allI impI)
    fix k pc0
    assume "fmlookup (clients (p\<lparr>clients := fmupd (configKey config)
               (pc\<lparr>inUse := False, lastUsed := now\<rparr>) (clients p)\<rparr>)) k = Some pc0"
    then show "client pc0 < next_ref w"
      using pool_inv_fresh [OF assms] Some by (auto split: if_splits)
  next
    fix k k' pc0 pc1
    assume "fmlookup (clients (p\<lparr>clients := fmupd (configKey config)
               (pc\<lparr>inUse := False, lastUsed := now\<rparr>) (clients p)\<rparr>)) k = Some pc0
          \<and> fmlookup (clients (p\<lparr>clients := fmupd (configKey config)
               (pc\<lparr>inUse := False, lastUsed := now\<rparr>) (clients p)\<rparr>)) k' = Some pc1
          \<and> client pc0 = client pc1"
    then show "k = k'"
      using pool_inv_inj [OF assms] Some by (auto split: if_splits)
  qed
  then show ?thesis using Some by (simp add: ReleaseClient_def)
qed

lemma pool_inv_drop:
  assumes "pool_inv p w" "next_ref w \<le> next_ref w'"
  shows "pool_inv (p\<lparr>clients := fmdrop key (clients p)\<rparr>) w'"
  unfolding pool_inv_iff
proof (intro conjI allI impI)
  fix k pc
  assume "fmlookup (clients (p\<lparr>clients := fmdrop key (clients p)\<rparr>)) k = Some pc"
  then have "fmlookup (clients p) k = Some pc" by (auto split: if_splits)
  then show "client pc < next_ref w'" using pool_inv_fresh [OF assms(1)] assms(2) by fastforce
next
  fix k k' pc pc'
  assume "fmlookup (clients (p\<lparr>clients := fmdrop key (clients p)\<rparr>)) k = Some pc
        \<and> fmlookup (clients (p\<lparr>clients := fmdrop key (clients p)\<rparr>)) k' = Some pc'
        \<and> client pc = client pc'"
  then have "fmlookup (clients p) k = Some pc" "fmlookup (clients p) k' = Some pc'"
    "client pc = client pc'" by (auto split: if_splits)
  then show "k = k'" by (rule pool_inv_inj [OF assms(1)])
qed

lemma pool_inv_world:
  assumes "pool_inv p w" "next_ref w \<le> next_ref w'"
  shows "pool_inv p w'"
  using assms unfolding pool_inv_iff by fastforce

lemma pool_inv_GetClient_create:
  assumes inv: "pool_inv p w" and run: "GetClient_create env now p config w = (res, p', w')"
  shows "pool_inv p' w'"
proof -
  note cs = GetClient_create_cases [OF run]
  show ?thesis
  proof (cases res)
    case (Inl e)
    then have pp: "p' = p" using cs by auto
    have "next_ref w' = next_ref w"
      using cs Inl NewSSHClient_Inl(1) by fastforce
    then show ?thesis using inv pp pool_inv_world by simp
  next
    case (Inr c)
    then have c: "c = next_ref w"
      and pp: "p' = p\<lparr>clients := fmupd (configKey config)
                  \<lparr>client = c, lastUsed = now, inUse = True, closeOnce = False\<rparr> (clients p)\<rparr>"
      and n: "NewSSHClient env config w = (Inr c, w')"
      using cs by auto
    have nx: "next_ref w' = Suc (next_ref w)" by (rule NewSSHClient_Inr(2) [OF n])
    show ?thesis
      unfolding pool_inv_iff pp
    proof (intro conjI allI impI)
      fix k pc
      assume "fmlookup (clients (p\<lparr>clients := fmupd (configKey config)
                \<lparr>client = c, lastUsed = now, inUse = True, closeOnce = False\<rparr> (clients p)\<rparr>)) k
              = Some pc"
      then show "client pc < next_ref w'"
        using pool_inv_fresh [OF inv] c nx by (fastforce split: if_splits)
    next
      fix k k' pc pc'
      assume a: "fmlookup (clients (p\<lparr>clients := fmupd (configKey config)
                \<lparr>client = c, lastUsed = now, inUse = True, closeOnce = False\<rparr> (clients p)\<rparr>)) k
              = Some pc
          \<and> fmlookup (clients (p\<lparr>clients := fmupd (configKey config)
                \<lparr>client = c, lastUsed = now, inUse = True, closeOnce = False\<rparr> (clients p)\<rparr>)) k'
              = Some pc'
          \<and> client pc = client pc'"
      show "k = k'"
      proof (cases "k = configKey config"; cases "k' = configKey config")
        assume "k = configKey config" "k' = configKey config"
        then show ?thesis by simp
      next
        assume 1: "k = configKey config" "k' \<noteq> configKey config"
        then have "fmlookup (clients p) k' = Some pc'" "client pc' = c" using a by auto
        then show ?thesis using pool_inv_fresh [OF inv] c by fastforce
      next
        assume 1: "k \<noteq> configKey config" "k' = configKey config"
        then have "fmlookup (clients p) k = Some pc" "client pc = c" using a by auto
        then show ?thesis using pool_inv_fresh [OF inv] c by fastforce
      next
        assume 1: "k \<noteq> configKey config" "k' \<noteq> configKey config"
        then have "fmlookup (clients p) k = Some pc" "fmlookup (clients p) k' = Some pc'"
          "client pc = client pc'" using a by auto
        then show ?thesis by (rule pool_inv_inj [OF inv])
      qed
    qed
  qed
qed

lemma pool_inv_GetClient:
  assumes inv: "pool_inv p w" and run: "GetClient env now p config w = (res, p', w')"
  shows "pool_inv p' w'"
proof (cases "fmlookup (clients p) (configKey config)")
  case None
  then have "GetClient_create env now p config w = (res, p', w')"
    using run by (simp add: GetClient_def)
  then show ?thesis by (rule pool_inv_GetClient_create [OF inv])
next
  case (Some pc)
  show ?thesis
  proof (cases "inUse pc")
    case True
    then have "GetClient_create env now p config w = (res, p', w')"
      using run Some by (simp add: GetClient_def)
    then show ?thesis by (rule pool_inv_GetClient_create [OF inv])
  next
    case idle: False
    show ?thesis
    proof (cases "conn_wait_ok env (client pc)")
      case True
      then have pp: "p' = p\<lparr>clients := fmupd (configKey config)
                       (pc\<lparr>inUse := True, lastUsed := now\<rparr>) (clients p)\<rparr>"
        and ww: "w' = emit (EvWait (client pc)) w"
        using run Some idle by (auto simp add: GetClient_def Let_def)
      show ?thesis
        unfolding pool_inv_iff pp ww
      proof (intro conjI allI impI)
        fix k pc0
        assume "fmlookup (clients (p\<lparr>clients := fmupd (configKey config)
                  (pc\<lparr>inUse := True, lastUsed := now\<rparr>) (clients p)\<rparr>)) k = Some pc0"
        then show "client pc0 < next_ref (emit (EvWait (client pc)) w)"
          using pool_inv_fresh [OF inv] Some by (auto split: if_splits)
      next
        fix k k' pc0 pc1
        assume "fmlookup (clients (p\<lparr>clients := fmupd (configKey config)
                  (pc\<lparr>inUse := True, lastUsed := now\<rparr>) (clients p)\<rparr>)) k = Some pc0
            \<and> fmlookup (clients (p\<lparr>clients := fmupd (configKey config)
                  (pc\<lparr>inUse := True, lastUsed := now\<rparr>) (clients p)\<rparr>)) k' = Some pc1
            \<and> client pc0 = client pc1"
        then show "k = k'"
          using pool_inv_inj [OF inv] Some by (auto split: if_splits)
      qed
    next
      case False
      then have c: "GetClient_create env now (p\<lparr>clients := fmdrop (configKey config) (clients p)\<rparr>)
                 config (emit (EvWait (client pc)) w) = (res, p', w')"
        using run Some idle by (simp add: GetClient_def Let_def)
      have "pool_inv (p\<lparr>clients := fmdrop (configKey config) (clients p)\<rparr>)
              (emit (EvWait (client pc)) w)"
        by (rule pool_inv_drop [OF inv]) simp
      then show ?thesis using c by (rule pool_inv_GetClient_create)
    qed
  qed
qed

lemma pool_inv_cleanup_entries:
  assumes "pool_inv p w" "cleanup_entries now keys p w = (p', w')"
  shows "pool_inv p' w'"
  using assms
proof (induction keys arbitrary: p w)
  case Nil
  then show ?case by simp
next
  case (Cons key keys)
  show ?case
  proof (cases "fmlookup (clients p) key")
    case None
    then have "cleanup_entries now keys p w = (p', w')"
      using Cons.prems(2) by (simp add: cleanup_entries_step del: cleanup_entries.simps)
    then show ?thesis by (rule Cons.IH [OF Cons.prems(1)])
  next
    case (Some pc)
    show ?thesis
    proof (cases "idle_expired now p pc")
      case False
      then have "cleanup_entries now keys p w = (p', w')"
        using Cons.prems(2) Some by (simp add: cleanup_entries_step del: cleanup_entries.simps)
      then show ?thesis by (rule Cons.IH [OF Cons.prems(1)])
    next
      case True
      then have r: "cleanup_entries now keys (p\<lparr>clients := fmdrop key (clients p)\<rparr>)
                 (if closeOnce pc then w else emit (EvClose (client pc)) w) = (p', w')"
        using Cons.prems(2) Some by (simp add: cleanup_entries_step del: cleanup_entries.simps)
      have "pool_inv (p\<lparr>clients := fmdrop key (clients p)\<rparr>)
              (if closeOnce pc then w else emit (EvClose (client pc)) w)"
        by (rule pool_inv_drop [OF Cons.prems(1)]) simp
      then show ?thesis using r by (rule Cons.IH)
    qed
  qed
qed
section \<open>The client operations\<close>

subsection \<open>Calls and their record\<close>


lemma called_simps [simp]:
  "host (called cl c) = host c" "calls (called cl c) = calls c @ [cl]"
  by (simp_all add: called_def)


lemma NewSession_calls:
  "NewSession env c = (ok, c1) \<Longrightarrow> calls c1 = calls c @ [CallNewSession] \<and> host c1 = host c
     \<and> ok = new_session env (host c)"
  by (auto simp add: NewSession_def)

lemma Output_calls:
  "Output env cmd c = (out, c1) \<Longrightarrow> calls c1 = calls c @ [CallOutput cmd]
     \<and> (out, host c1) = exec env (host c) cmd"
  by (auto simp add: Output_def split: prod.splits)


lemma in_take16:
  "16 \<le> length out \<Longrightarrow> (ch \<in> set (take 16 out)) = (\<exists>j<16. out ! j = ch)"
  by (auto simp add: in_set_conv_nth)

subsection \<open>GetFileAttributes\<close>

text \<open>
  C10. When the session opens and the listing command succeeds with output \<open>out\<close>,
  \<open>GetFileAttributes\<close> returns attributes and no error. If \<open>out\<close> is shorter than 16
  bytes all eight flags are false. Otherwise each flag is true exactly if its letter is
  at some position among the first 16 bytes of \<open>out\<close>, whichever position that is.
\<close>

theorem GetFileAttributes_parse:
  assumes ses: "new_session env (host c)"
    and out: "exec env (host c) (''lsattr -d '' @ quote env path) = (Some out, h)"
  shows "\<exists>attrs c'. GetFileAttributes env path c = (Inr attrs, c')
      \<and> (length out < 16 \<longrightarrow>
            \<not> Immutable attrs \<and> \<not> AppendOnly attrs \<and> \<not> NoDump attrs \<and> \<not> Synchronous attrs
          \<and> \<not> NoAtime attrs \<and> \<not> Compressed attrs \<and> \<not> NoCoW attrs \<and> \<not> Undeletable attrs)
      \<and> (16 \<le> length out \<longrightarrow>
            Immutable attrs = (\<exists>j<16. out ! j = CHR ''i'')
          \<and> AppendOnly attrs = (\<exists>j<16. out ! j = CHR ''a'')
          \<and> NoDump attrs = (\<exists>j<16. out ! j = CHR ''d'')
          \<and> Synchronous attrs = (\<exists>j<16. out ! j = CHR ''S'')
          \<and> NoAtime attrs = (\<exists>j<16. out ! j = CHR ''A'')
          \<and> Compressed attrs = (\<exists>j<16. out ! j = CHR ''c'')
          \<and> NoCoW attrs = (\<exists>j<16. out ! j = CHR ''C'')
          \<and> Undeletable attrs = (\<exists>j<16. out ! j = CHR ''u''))"
proof (cases "16 \<le> length out")
  case True
  have "GetFileAttributes env path c =
      (Inr \<lparr>Immutable = CHR ''i'' \<in> set (take 16 out),
            AppendOnly = CHR ''a'' \<in> set (take 16 out),
            NoDump = CHR ''d'' \<in> set (take 16 out),
            Synchronous = CHR ''S'' \<in> set (take 16 out),
            NoAtime = CHR ''A'' \<in> set (take 16 out),
            Compressed = CHR ''c'' \<in> set (take 16 out),
            NoCoW = CHR ''C'' \<in> set (take 16 out),
            Undeletable = CHR ''u'' \<in> set (take 16 out)\<rparr>,
       (called (CallOutput (''lsattr -d '' @ quote env path)) (called CallNewSession c))\<lparr>host := h\<rparr>)"
    using ses out True by (simp add: GetFileAttributes_def NewSession_def Output_def Let_def)
  then show ?thesis using True by (simp add: in_take16)
next
  case False
  have "GetFileAttributes env path c =
      (Inr no_attributes,
       (called (CallOutput (''lsattr -d '' @ quote env path)) (called CallNewSession c))\<lparr>host := h\<rparr>)"
    using ses out False by (simp add: GetFileAttributes_def NewSession_def Output_def Let_def)
  then show ?thesis using False by (simp add: no_attributes_def)
qed



lemma lsattr_f: "exec demo_remote (host demo_conn) (''lsattr -d '' @ quote demo_remote ''/srv/f'')
                  = (Some ''----i-A------- /srv/f'', host demo_conn)"
  by (simp add: demo_remote_def demo_outputs_def demo_quote_def)

lemma lsattr_g: "exec demo_remote (host demo_conn) (''lsattr -d '' @ quote demo_remote ''/srv/g'')
                  = (Some ''lsattr: n/a'', host demo_conn)"
  by (simp add: demo_remote_def demo_outputs_def demo_quote_def)

lemma nth_i: "(''----i-A------- /srv/f'' ! 4) = CHR ''i''" "(''----i-A------- /srv/f'' ! 6) = CHR ''A''"
  by simp_all

theorem GetFileAttributes_parse_witness:
  "new_session demo_remote (host demo_conn)
   \<and> exec demo_remote (host demo_conn) (''lsattr -d '' @ quote demo_remote ''/srv/f'')
       = (Some ''----i-A------- /srv/f'', host demo_conn)
   \<and> 16 \<le> length ''----i-A------- /srv/f''
   \<and> (\<exists>attrs c'. GetFileAttributes demo_remote ''/srv/f'' demo_conn = (Inr attrs, c')
         \<and> Immutable attrs \<and> NoAtime attrs)
   \<and> exec demo_remote (host demo_conn) (''lsattr -d '' @ quote demo_remote ''/srv/g'')
       = (Some ''lsattr: n/a'', host demo_conn)
   \<and> length ''lsattr: n/a'' < 16
   \<and> (\<exists>attrs c'. GetFileAttributes demo_remote ''/srv/g'' demo_conn = (Inr attrs, c')
         \<and> \<not> Immutable attrs \<and> \<not> AppendOnly attrs)"
proof -
  have s: "new_session demo_remote (host demo_conn)" by (simp add: demo_remote_def)
  have i: "\<exists>j<16. ''----i-A------- /srv/f'' ! j = CHR ''i''"
    by (rule exI [of _ 4]) simp
  have a: "\<exists>j<16. ''----i-A------- /srv/f'' ! j = CHR ''A''"
    by (rule exI [of _ 6]) simp
  have l1: "16 \<le> length ''----i-A------- /srv/f''" by simp
  have l2: "length ''lsattr: n/a'' < 16" by simp
  from GetFileAttributes_parse [OF s lsattr_f] l1 i a
  have 1: "\<exists>attrs c'. GetFileAttributes demo_remote ''/srv/f'' demo_conn = (Inr attrs, c')
         \<and> Immutable attrs \<and> NoAtime attrs" by blast
  from GetFileAttributes_parse [OF s lsattr_g] l2
  have 2: "\<exists>attrs c'. GetFileAttributes demo_remote ''/srv/g'' demo_conn = (Inr attrs, c')
         \<and> \<not> Immutable attrs \<and> \<not> AppendOnly attrs" by blast
  show ?thesis using s lsattr_f lsattr_g l1 l2 1 2 by blast
qed
subsection \<open>Evaluation on the small host\<close>



subsection \<open>SetFileAttributes\<close>














lemma flags_f: "flags_to_add attrs_want attrs_f = [''a'']" "flags_to_remove attrs_want attrs_f = [''A'']"
  by (simp_all add: flags_to_add_def flags_to_remove_def attrFlags_def currentAttrMap_def
      attrs_want_def attrs_f_def)

subsection \<open>SetFileOwnership\<close>










subsection \<open>CreateDirectory\<close>











text \<open>
  The claim as stated has \<open>GetFileMode\<close> equal to the requested mode. For the mode 01777
  (1023, a sticky directory) the directory is created and its mode set, and
  \<open>GetFileMode\<close> gives 0777 (511): \<open>Perm()\<close> drops every bit above the nine permission
  bits.
\<close>

lemma and_1023: "and (1023 :: 32 word) 511 = 511" by simp

end
